theory Spec2Isabelle
  imports Main
begin

section \<open>The keepalive extension of ComfyUI Manager (js/keepalive.js)\<close>

text \<open>
  The script runs on the browser's single-threaded event loop. Its module state is the two
  variables \<open>pingInterval\<close> and \<open>notificationEl\<close>; everything else it touches belongs to the
  host: the document's \<open>hidden\<close> flag, the children of \<open>document.body\<close>, the timers created
  by \<open>setTimeout\<close>/\<open>setInterval\<close>, the \<open>fetch\<close> requests that have not settled yet and the
  console. The model keeps all of it in one record, each source function is a function on
  that record, and the host's events (time passing, a timer firing, a request settling, a
  visibility change) are the labels of a step function.
\<close>

subsection \<open>Data\<close>

text \<open>A \<open>div\<close> created by \<open>showNotification\<close>: the fields the script writes.\<close>

record element =
  textContent :: string
  background :: string
  opacity :: string

text \<open>
  The four functions the script hands to a timer: \<open>ping\<close> (to \<open>setInterval\<close>), \<open>poll\<close>
  (the closure of \<open>pollUntilRunning\<close>), \<open>hideNotification\<close>, and the arrow function inside
  \<open>hideNotification\<close> that removes the faded element.
\<close>

datatype callback = CbPing | CbPoll | CbHide | CbRemove

record timer =
  tid :: nat
  due :: nat
  period :: "nat option"
  cb :: callback

text \<open>
  An unsettled \<open>fetch\<close> remembers which async function is suspended on it: \<open>ping\<close> or the
  \<open>checkState\<close> closure of a poll session. Its deadline is the \<open>AbortSignal.timeout(5000)\<close>.
\<close>

datatype awaiter = AwaitPing | AwaitCheckState

record request =
  rid :: nat
  awaiter :: awaiter
  deadline :: nat

text \<open>
  How \<open>await fetch(...)\<close> followed by \<open>await response.json()\<close> ends: either one of them
  throws (network failure, timeout, malformed body), or \<open>data.state\<close> is read; \<open>None\<close>
  stands for a \<open>state\<close> that is missing or not a string: the script only compares the
  value with two strings, so which value it is makes no difference to what it does.
\<close>

datatype fetch_result = Rejected | Resolved "string option"

text \<open>
  A line on the console: \<open>console.log(text)\<close>, or \<open>console.log(text, data.state)\<close>, which
  prints the value of \<open>data.state\<close> as it is, whatever it is.
\<close>

datatype log_line = Log string | LogValue string "string option"

record state =
  hidden :: bool
  pingInterval :: "nat option"
  notificationEl :: "nat option"
  heap :: "(nat \<times> element) list"
  body :: "nat list"
  timers :: "timer list"
  inflight :: "request list"
  sent :: "(awaiter \<times> nat) list"
  console :: "log_line list"
  now :: nat
  next_timer :: nat
  next_request :: nat
  next_element :: nat

text \<open>The host's events.\<close>

datatype event =
  Elapse nat
| Fire nat
| Settle nat fetch_result
| VisibilityChange bool

subsection \<open>Host primitives\<close>

definition PING_INTERVAL :: nat where
  "PING_INTERVAL = 60000"

definition log :: "log_line \<Rightarrow> state \<Rightarrow> state" where
  "log msg s = s\<lparr>console := console s @ [msg]\<rparr>"

text \<open>Timer handles are positive integers, handed out in increasing order.\<close>

definition setTimeout :: "callback \<Rightarrow> nat \<Rightarrow> state \<Rightarrow> state" where
  "setTimeout f d s =
     s\<lparr>timers := timers s @ [\<lparr>tid = next_timer s, due = now s + d, period = None, cb = f\<rparr>],
       next_timer := Suc (next_timer s)\<rparr>"

definition setInterval :: "callback \<Rightarrow> nat \<Rightarrow> state \<Rightarrow> nat \<times> state" where
  "setInterval f d s =
     (next_timer s,
      s\<lparr>timers := timers s @ [\<lparr>tid = next_timer s, due = now s + d, period = Some d, cb = f\<rparr>],
        next_timer := Suc (next_timer s)\<rparr>)"

definition clearInterval :: "nat \<Rightarrow> state \<Rightarrow> state" where
  "clearInterval i s = s\<lparr>timers := filter (\<lambda>t. tid t \<noteq> i) (timers s)\<rparr>"

text \<open>
  \<open>fetch(url, {method: 'POST', mode: 'cors', signal: AbortSignal.timeout(5000)})\<close>: the
  request leaves at once (\<open>sent\<close> is the record of what went out, and when) and the caller
  is suspended until it settles.
\<close>

definition fetch :: "awaiter \<Rightarrow> state \<Rightarrow> state" where
  "fetch k s =
     s\<lparr>inflight := inflight s @ [\<lparr>rid = next_request s, awaiter = k, deadline = now s + 5000\<rparr>],
       sent := sent s @ [(k, now s)],
       next_request := Suc (next_request s)\<rparr>"

text \<open>\<open>el.remove()\<close> detaches the node from its parent; \<open>el.style.opacity = v\<close>.\<close>

definition remove_node :: "nat \<Rightarrow> state \<Rightarrow> state" where
  "remove_node e s = s\<lparr>body := removeAll e (body s)\<rparr>"

definition set_opacity :: "nat \<Rightarrow> string \<Rightarrow> state \<Rightarrow> state" where
  "set_opacity e v s =
     s\<lparr>heap := map (\<lambda>(i, el). if i = e then (i, el\<lparr>opacity := v\<rparr>) else (i, el)) (heap s)\<rparr>"

subsection \<open>The status overlay\<close>

definition showNotification :: "string \<Rightarrow> string \<Rightarrow> state \<Rightarrow> state" where
  "showNotification message type s =
     (let s1 = (case notificationEl s of None \<Rightarrow> s | Some old \<Rightarrow> remove_node old s);
          e = next_element s1;
          el = \<lparr>textContent = message,
                background = (if type = ''info'' then ''#1e40af'' else ''#166534''),
                opacity = ''''\<rparr>
      in s1\<lparr>notificationEl := Some e,
            heap := (e, el) # heap s1,
            body := body s1 @ [e],
            next_element := Suc e\<rparr>)"

text \<open>The arrow function of \<open>hideNotification\<close>; it reads \<open>notificationEl\<close> when it runs.\<close>

definition removeFaded :: "state \<Rightarrow> state" where
  "removeFaded s =
     (case notificationEl s of
        None \<Rightarrow> s
      | Some e \<Rightarrow> (remove_node e s)\<lparr>notificationEl := None\<rparr>)"

definition hideNotification :: "state \<Rightarrow> state" where
  "hideNotification s =
     (case notificationEl s of
        None \<Rightarrow> s
      | Some e \<Rightarrow> setTimeout CbRemove 300 (set_opacity e ''0'' s))"

subsection \<open>The recovery poller\<close>

text \<open>
  \<open>pollUntilRunning\<close> builds the closures \<open>checkState\<close> and \<open>poll\<close> and calls \<open>poll\<close>, which
  runs \<open>checkState\<close> up to its \<open>fetch\<close>. \<open>checkState\<close> below is the rest of that closure, from
  the settled request to its return value; \<open>poll_resumed\<close> is the rest of \<open>poll\<close>.
\<close>

definition poll :: "state \<Rightarrow> state" where
  "poll s = fetch AwaitCheckState s"

definition pollUntilRunning :: "state \<Rightarrow> state" where
  "pollUntilRunning s = poll s"

definition checkState :: "fetch_result \<Rightarrow> state \<Rightarrow> bool \<times> state" where
  "checkState r s =
     (case r of
        Rejected \<Rightarrow> (True, s)
      | Resolved st \<Rightarrow>
          if st = Some ''running'' then
            (True, setTimeout CbHide 2000 (showNotification ''ComfyUI is ready!'' ''success'' s))
          else if st = Some ''starting'' then (False, s)
          else (True, hideNotification s))"

definition poll_resumed :: "fetch_result \<Rightarrow> state \<Rightarrow> state" where
  "poll_resumed r s =
     (let (done, s1) = checkState r s
      in if \<not> done then setTimeout CbPoll 2000 s1 else s1)"

text \<open>
  One session on its own, in direct style: each \<open>await checkState()\<close> takes the next
  outcome from the list, a \<open>false\<close> goes round again. The result is the number of attempts
  made when the session ended, and \<open>None\<close> when the outcomes run out with the session
  still polling.
\<close>

fun session :: "fetch_result list \<Rightarrow> state \<Rightarrow> (nat \<times> state) option" where
  "session [] s = None"
| "session (r # rs) s =
     (let (done, s1) = checkState r s
      in if \<not> done then map_option (\<lambda>(n, s2). (Suc n, s2)) (session rs s1)
         else Some (1, s1))"

subsection \<open>The heartbeat loop\<close>

definition ping :: "state \<Rightarrow> state" where
  "ping s = (if hidden s then s else fetch AwaitPing s)"

text \<open>The rest of \<open>ping\<close> after its \<open>await\<close>s.\<close>

definition ping_resumed :: "fetch_result \<Rightarrow> state \<Rightarrow> state" where
  "ping_resumed r s =
     (case r of
        Rejected \<Rightarrow> log (Log ''[ComfyUI Manager] Ping failed (manager may not be running)'') s
      | Resolved st \<Rightarrow>
          log (LogValue ''[ComfyUI Manager] Ping sent, state:'' st)
            (if st = Some ''starting'' then
               pollUntilRunning
                 (showNotification ''ComfyUI is starting up... Please wait.'' ''info'' s)
             else if st = Some ''running'' then hideNotification s
             else s))"

text \<open>
  \<open>pingInterval\<close> is \<open>null\<close> or a timer handle, and the script tests it as a condition:
  \<open>null\<close> and the number 0 count as false.
\<close>

definition truthy :: "nat option \<Rightarrow> bool" where
  "truthy h = (case h of None \<Rightarrow> False | Some i \<Rightarrow> i \<noteq> 0)"

definition startPinging :: "state \<Rightarrow> state" where
  "startPinging s =
     (let s1 = ping s
      in if \<not> truthy (pingInterval s1) then
           (let (h, s2) = setInterval CbPing PING_INTERVAL s1 in s2\<lparr>pingInterval := Some h\<rparr>)
         else s1)"

definition stopPinging :: "state \<Rightarrow> state" where
  "stopPinging s =
     (case pingInterval s of
        None \<Rightarrow> s
      | Some h \<Rightarrow>
          if truthy (Some h) then (clearInterval h s)\<lparr>pingInterval := None\<rparr> else s)"

text \<open>The \<open>visibilitychange\<close> listener, run after the host has updated \<open>document.hidden\<close>.\<close>

definition on_visibilitychange :: "state \<Rightarrow> state" where
  "on_visibilitychange s = (if hidden s then stopPinging s else startPinging s)"

text \<open>The \<open>setup()\<close> method passed to \<open>app.registerExtension\<close>.\<close>

definition setup_extension :: "state \<Rightarrow> state" where
  "setup_extension s = log (Log ''[ComfyUI Manager] Keepalive extension loaded'') (startPinging s)"

subsection \<open>The event loop\<close>

definition run_callback :: "callback \<Rightarrow> state \<Rightarrow> state" where
  "run_callback f s =
     (case f of
        CbPing \<Rightarrow> ping s
      | CbPoll \<Rightarrow> poll s
      | CbHide \<Rightarrow> hideNotification s
      | CbRemove \<Rightarrow> removeFaded s)"

text \<open>A timeout is spent when it fires; an interval is due again one period later.\<close>

definition again :: "timer \<Rightarrow> nat \<Rightarrow> timer \<Rightarrow> timer" where
  "again t p u = (if u = t then u\<lparr>due := due u + p\<rparr> else u)"

definition fire :: "timer \<Rightarrow> state \<Rightarrow> state" where
  "fire t s =
     run_callback (cb t)
       (case period t of
          None \<Rightarrow> s\<lparr>timers := remove1 t (timers s)\<rparr>
        | Some p \<Rightarrow> s\<lparr>timers := map (again t p) (timers s)\<rparr>)"

definition settle :: "request \<Rightarrow> fetch_result \<Rightarrow> state \<Rightarrow> state" where
  "settle q r s =
     (let s1 = s\<lparr>inflight := remove1 q (inflight s)\<rparr>
      in case awaiter q of
           AwaitPing \<Rightarrow> ping_resumed r s1
         | AwaitCheckState \<Rightarrow> poll_resumed r s1)"

text \<open>
  Time may pass as long as it does not run over a timer that is due or over a request's
  timeout; a timer fires once it is due; a request in flight settles; the tab is hidden or
  shown. An event that cannot happen in the state gives \<open>None\<close>.
\<close>

definition step :: "event \<Rightarrow> state \<Rightarrow> state option" where
  "step ev s =
     (case ev of
        Elapse d \<Rightarrow>
          if list_all (\<lambda>t. now s + d \<le> due t) (timers s)
             \<and> list_all (\<lambda>q. now s + d \<le> deadline q) (inflight s)
          then Some (s\<lparr>now := now s + d\<rparr>) else None
      | Fire i \<Rightarrow>
          (case find (\<lambda>t. tid t = i) (timers s) of
             None \<Rightarrow> None
           | Some t \<Rightarrow> if due t \<le> now s then Some (fire t s) else None)
      | Settle i r \<Rightarrow>
          (case find (\<lambda>q. rid q = i) (inflight s) of
             None \<Rightarrow> None
           | Some q \<Rightarrow> Some (settle q r s))
      | VisibilityChange h \<Rightarrow> Some (on_visibilitychange (s\<lparr>hidden := h\<rparr>)))"

fun run :: "event list \<Rightarrow> state \<Rightarrow> state option" where
  "run [] s = Some s"
| "run (ev # evs) s = (case step ev s of None \<Rightarrow> None | Some s1 \<Rightarrow> run evs s1)"

text \<open>
  The page as the script finds it, and the state once ComfyUI has called the \<open>setup()\<close>
  method of the registered extension.
\<close>

definition init :: "bool \<Rightarrow> state" where
  "init h =
     \<lparr>hidden = h, pingInterval = None, notificationEl = None, heap = [], body = [],
      timers = [], inflight = [], sent = [], console = [], now = 0,
      next_timer = 1, next_request = 1, next_element = 1\<rparr>"

definition boot :: "bool \<Rightarrow> state" where
  "boot h = setup_extension (init h)"

subsection \<open>Observations\<close>

text \<open>
  A poll session is active while its \<open>checkState\<close> waits for a request or its next \<open>poll\<close>
  waits for the 2 second timer; it is never both.
\<close>

definition poll_requests :: "state \<Rightarrow> request list" where
  "poll_requests s = filter (\<lambda>q. awaiter q = AwaitCheckState) (inflight s)"

definition poll_timers :: "state \<Rightarrow> timer list" where
  "poll_timers s = filter (\<lambda>t. cb t = CbPoll) (timers s)"

definition active_sessions :: "state \<Rightarrow> nat" where
  "active_sessions s = length (poll_requests s) + length (poll_timers s)"

definition ping_timers :: "state \<Rightarrow> timer list" where
  "ping_timers s = filter (\<lambda>t. cb t = CbPing) (timers s)"

definition heartbeats :: "state \<Rightarrow> nat list" where
  "heartbeats s = map snd (filter (\<lambda>(k, t). k = AwaitPing) (sent s))"

definition poll_attempts :: "state \<Rightarrow> nat list" where
  "poll_attempts s = map snd (filter (\<lambda>(k, t). k = AwaitCheckState) (sent s))"

text \<open>What the user sees: the notifications under \<open>document.body\<close>.\<close>

definition displayed :: "state \<Rightarrow> element list" where
  "displayed s = map (\<lambda>e. the (map_of (heap s) e)) (body s)"

definition overlay :: "state \<Rightarrow> (string \<times> string \<times> string) list" where
  "overlay s = map (\<lambda>el. (textContent el, background el, opacity el)) (displayed s)"

subsection \<open>Scenarios and observers\<close>

text \<open>
  Scenario B of the specification, with latencies filled in: the first heartbeat (request 1,
  sent by \<open>setup()\<close> at time 0) is answered "starting" at once; the session's first poll
  (request 2) is answered "starting" after 150 ms; its 2 second timer (handle 2) fires; the
  second poll (request 3) is answered "running" after 90 ms; the 2 second dismissal timer
  (handle 3) fires; the 300 ms removal timer (handle 4) fires.
\<close>

definition scenario_B :: "event list" where
  "scenario_B =
     [Settle 1 (Resolved (Some ''starting'')),
      Elapse 150, Settle 2 (Resolved (Some ''starting'')),
      Elapse 2000, Fire 2,
      Elapse 90, Settle 3 (Resolved (Some ''running'')),
      Elapse 2000, Fire 3,
      Elapse 300, Fire 4]"

text \<open>Overlay, number of active poll sessions, times of the poll attempts so far, clock.\<close>

definition observe :: "state \<Rightarrow> (string \<times> string \<times> string) list \<times> nat \<times> nat list \<times> nat" where
  "observe s = (overlay s, active_sessions s, poll_attempts s, now s)"

text \<open>The heartbeat's timer: the handle in \<open>pingInterval\<close> and the interval behind it.\<close>

definition heartbeat_timer :: "state \<Rightarrow> nat option \<times> timer list" where
  "heartbeat_timer s = (pingInterval s, ping_timers s)"

text \<open>The state right after the first heartbeat (request 1) was answered "starting".\<close>

definition session_started :: state where
  "session_started =
     settle \<lparr>rid = 1, awaiter = AwaitPing, deadline = 5000\<rparr> (Resolved (Some ''starting'')) (boot False)"

text \<open>
  The user leaves the tab and comes back while the backend is starting: the heartbeat sent
  on return (request 3) is answered "starting" as well.
\<close>

definition away_and_back :: "event list" where
  "away_and_back =
     [Settle 1 (Resolved (Some ''starting'')), Elapse 100, VisibilityChange True,
      Elapse 500, VisibilityChange False, Elapse 80]"

text \<open>
  A heartbeat and a poll both answered "running" within 300 ms of each other: the session
  is waiting for its 2 second timer (handle 2) when the user leaves the tab and comes
  back, which sends a heartbeat (request 3); the timer fires and the session polls
  (request 4); the heartbeat's answer comes first, the poll's answer 100 ms later; then
  the removal timer set by the heartbeat's \<open>hideNotification\<close> (handle 4) fires.
\<close>

definition ready_during_fade :: "event list" where
  "ready_during_fade =
     [Settle 1 (Resolved (Some ''starting'')),
      Elapse 100, Settle 2 (Resolved (Some ''starting'')),
      Elapse 1900, VisibilityChange True, VisibilityChange False,
      Elapse 100, Fire 2,
      Elapse 50, Settle 3 (Resolved (Some ''running'')),
      Elapse 100, Settle 4 (Resolved (Some ''running'')),
      Elapse 200, Fire 4]"

text \<open>Calls into the overlay: \<open>show\<close>, \<open>hide\<close>, and the delayed removal running.\<close>

datatype overlay_call = Show string string | Hide | Removal

fun apply_call :: "overlay_call \<Rightarrow> state \<Rightarrow> state" where
  "apply_call (Show message type) s = showNotification message type s"
| "apply_call Hide s = hideNotification s"
| "apply_call Removal s = removeFaded s"

fun overlay_calls :: "overlay_call list \<Rightarrow> state \<Rightarrow> state" where
  "overlay_calls [] s = s"
| "overlay_calls (c # cs) s = overlay_calls cs (apply_call c s)"

text \<open>
  Scenario D of the specification, up to the moment the tab is hidden: the first heartbeat
  and the session's first poll are both answered "starting", so the session is waiting
  for its 2 second timer (handle 2, due at 2100 ms).
\<close>

definition mid_session :: "event list" where
  "mid_session =
     [Settle 1 (Resolved (Some ''starting'')), Elapse 100, Settle 2 (Resolved (Some ''starting''))]"


text \<open>
  The same race with the tab visible all the time: the backend takes a minute to start,
  each poll is answered "starting" after 4 seconds, and the heartbeat's 60 second tick
  (handle 1) comes while the session is still polling. The heartbeat (request 13) is
  answered "running" after 50 ms, the poll sent at the same moment (request 12) after
  150 ms; then the removal timer set by the heartbeat's \<open>hideNotification\<close> (handle 12)
  fires.
\<close>

definition slow_start :: "event list" where
  "slow_start =
     [Settle 1 (Resolved (Some ''starting'')),
      Elapse 4000, Settle 2 (Resolved (Some ''starting'')), Elapse 2000, Fire 2,
      Elapse 4000, Settle 3 (Resolved (Some ''starting'')), Elapse 2000, Fire 3,
      Elapse 4000, Settle 4 (Resolved (Some ''starting'')), Elapse 2000, Fire 4,
      Elapse 4000, Settle 5 (Resolved (Some ''starting'')), Elapse 2000, Fire 5,
      Elapse 4000, Settle 6 (Resolved (Some ''starting'')), Elapse 2000, Fire 6,
      Elapse 4000, Settle 7 (Resolved (Some ''starting'')), Elapse 2000, Fire 7,
      Elapse 4000, Settle 8 (Resolved (Some ''starting'')), Elapse 2000, Fire 8,
      Elapse 4000, Settle 9 (Resolved (Some ''starting'')), Elapse 2000, Fire 9,
      Elapse 4000, Settle 10 (Resolved (Some ''starting'')), Elapse 2000, Fire 10,
      Elapse 4000, Settle 11 (Resolved (Some ''starting'')), Elapse 2000, Fire 11,
      Fire 1,
      Elapse 50, Settle 13 (Resolved (Some ''running'')),
      Elapse 100, Settle 12 (Resolved (Some ''running'')),
      Elapse 200, Fire 12]"

subsection \<open>Invariants\<close>

text \<open>
  The timers: handles are unique, positive and below the next one to be handed out, no
  pending timer is overdue, only the heartbeat repeats, \<open>pingInterval\<close> is \<open>null\<close> exactly
  when no heartbeat timer exists and otherwise is the handle of the only one, whose next
  tick is at most one period away; and a visible tab has its heartbeat timer.
\<close>

definition timers_ok :: "state \<Rightarrow> bool" where
  "timers_ok s \<longleftrightarrow>
     distinct (map tid (timers s)) \<and> 0 < next_timer s
     \<and> (\<forall>t \<in> set (timers s). 0 < tid t \<and> tid t < next_timer s \<and> now s \<le> due t
            \<and> (period t \<noteq> None \<longrightarrow> cb t = CbPing))
     \<and> (pingInterval s = None \<longrightarrow> ping_timers s = [])
     \<and> (\<forall>h. pingInterval s = Some h \<longrightarrow>
            (\<exists>d. ping_timers s = [\<lparr>tid = h, due = d, period = Some PING_INTERVAL, cb = CbPing\<rparr>]
                 \<and> d \<le> now s + PING_INTERVAL))
     \<and> (\<not> hidden s \<longrightarrow> pingInterval s \<noteq> None)"

text \<open>The overlay: the page holds the element \<open>notificationEl\<close> refers to and no other.\<close>

definition overlay_ok :: "state \<Rightarrow> bool" where
  "overlay_ok s \<longleftrightarrow> body s = (case notificationEl s of None \<Rightarrow> [] | Some e \<Rightarrow> [e])"

section \<open>Properties\<close>

lemmas script_defs =
  boot_def init_def setup_extension_def startPinging_def stopPinging_def on_visibilitychange_def
  clearInterval_def ping_def fetch_def log_def setInterval_def PING_INTERVAL_def step_def settle_def
  ping_resumed_def pollUntilRunning_def poll_def showNotification_def poll_resumed_def checkState_def
  setTimeout_def fire_def again_def run_callback_def hideNotification_def removeFaded_def set_opacity_def
  remove_node_def truthy_def Let_def

lemmas observation_defs =
  overlay_def displayed_def active_sessions_def poll_requests_def poll_timers_def ping_timers_def
  heartbeats_def poll_attempts_def

subsection \<open>The timer invariant is kept by every function of the script\<close>

lemma timers_ok_log: "timers_ok (log m s) = timers_ok s"
  by (simp add: timers_ok_def log_def ping_timers_def)

lemma timers_ok_fetch: "timers_ok (fetch k s) = timers_ok s"
  by (simp add: timers_ok_def fetch_def ping_timers_def)

lemma timers_ok_setTimeout: "f \<noteq> CbPing \<Longrightarrow> timers_ok s \<Longrightarrow> timers_ok (setTimeout f d s)"
  by (auto simp add: timers_ok_def setTimeout_def ping_timers_def split: option.splits)

lemma timers_ok_set_opacity: "timers_ok (set_opacity e v s) = timers_ok s"
  by (simp add: timers_ok_def set_opacity_def ping_timers_def)

lemma timers_ok_remove_node: "timers_ok (remove_node e s) = timers_ok s"
  by (simp add: timers_ok_def remove_node_def ping_timers_def)

lemma timers_ok_showNotification: "timers_ok (showNotification m ty s) = timers_ok s"
  by (simp add: timers_ok_def showNotification_def remove_node_def ping_timers_def Let_def split: option.splits)

lemma timers_ok_removeFaded: "timers_ok (removeFaded s) = timers_ok s"
  by (simp add: timers_ok_def removeFaded_def remove_node_def ping_timers_def split: option.splits)

lemma timers_ok_hideNotification: "timers_ok s \<Longrightarrow> timers_ok (hideNotification s)"
  by (simp add: hideNotification_def timers_ok_setTimeout timers_ok_set_opacity split: option.splits)

lemma timers_ok_poll: "timers_ok (poll s) = timers_ok s"
  by (simp add: poll_def timers_ok_fetch)

lemma timers_ok_checkState: "timers_ok s \<Longrightarrow> timers_ok (snd (checkState r s))"
  by (simp add: checkState_def timers_ok_setTimeout timers_ok_showNotification timers_ok_hideNotification split: fetch_result.splits)

lemma timers_ok_poll_resumed: "timers_ok s \<Longrightarrow> timers_ok (poll_resumed r s)"
  using timers_ok_checkState [of s r]
  by (auto simp add: poll_resumed_def timers_ok_setTimeout split: prod.splits)

lemma timers_ok_ping: "timers_ok (ping s) = timers_ok s"
  by (simp add: ping_def timers_ok_fetch)

lemma timers_ok_ping_resumed: "timers_ok s \<Longrightarrow> timers_ok (ping_resumed r s)"
  by (simp add: ping_resumed_def timers_ok_log pollUntilRunning_def timers_ok_poll timers_ok_showNotification timers_ok_hideNotification split: fetch_result.splits)

lemma ping_frame: "pingInterval (ping s) = pingInterval s" "timers (ping s) = timers s" "hidden (ping s) = hidden s"
  "now (ping s) = now s" "next_timer (ping s) = next_timer s"
  by (simp_all add: ping_def fetch_def)

text \<open>
  A handle the script holds is positive, so its tests of \<open>pingInterval\<close> are tests for
  \<open>null\<close>.
\<close>

lemma handle_positive:
  assumes "timers_ok s" "pingInterval s = Some h"
  shows "0 < h"
proof -
  from assms obtain d where
    "ping_timers s = [\<lparr>tid = h, due = d, period = Some PING_INTERVAL, cb = CbPing\<rparr>]"
    by (auto simp: timers_ok_def)
  then have "\<lparr>tid = h, due = d, period = Some PING_INTERVAL, cb = CbPing\<rparr> \<in> set (ping_timers s)"
    by simp
  then have "\<lparr>tid = h, due = d, period = Some PING_INTERVAL, cb = CbPing\<rparr> \<in> set (timers s)"
    by (simp add: ping_timers_def)
  with assms(1) show ?thesis by (auto simp: timers_ok_def)
qed

lemma truthy_handle: "timers_ok s \<Longrightarrow> truthy (pingInterval s) = (pingInterval s \<noteq> None)"
  by (cases "pingInterval s") (auto simp: truthy_def dest: handle_positive)

lemma timers_ok_hidden: "timers_ok s \<Longrightarrow> timers_ok (s\<lparr>hidden := True\<rparr>)"
  by (simp add: timers_ok_def ping_timers_def)

lemma startPinging_null:
  assumes "timers_ok (s\<lparr>hidden := True\<rparr>)"
  shows "startPinging s =
     (let s1 = ping s
      in if pingInterval s1 = None then
           (let (h, s2) = setInterval CbPing PING_INTERVAL s1 in s2\<lparr>pingInterval := Some h\<rparr>)
         else s1)"
  using truthy_handle [OF assms] by (simp add: startPinging_def ping_frame Let_def)

lemma stopPinging_null:
  assumes "timers_ok s"
  shows "stopPinging s =
     (case pingInterval s of
        None \<Rightarrow> s
      | Some h \<Rightarrow> (clearInterval h s)\<lparr>pingInterval := None\<rparr>)"
proof (cases "pingInterval s")
  case None
  then show ?thesis by (simp add: stopPinging_def)
next
  case (Some h)
  have "truthy (Some h)" using handle_positive [OF assms Some] by (simp add: truthy_def)
  with Some show ?thesis by (simp add: stopPinging_def)
qed

lemma timers_ok_startPinging:
  assumes "timers_ok (s\<lparr>hidden := True\<rparr>)" shows "timers_ok (startPinging s)"
  using assms unfolding startPinging_null [OF assms]
  by (cases "pingInterval s") (auto simp add: Let_def setInterval_def ping_frame timers_ok_def ping_timers_def)

lemma tid_unique: "distinct (map tid ts) \<Longrightarrow> t \<in> set ts \<Longrightarrow> u \<in> set ts \<Longrightarrow> tid t = tid u \<Longrightarrow> t = u"
  by (meson distinct_map inj_onD)

lemma filter_swap: "filter P (filter Q xs) = filter Q (filter P xs)"
  by (induction xs) auto

lemma timers_ok_stopPinging: 
  assumes "timers_ok s" shows "timers_ok ((stopPinging s)\<lparr>hidden := True\<rparr>)"
proof (cases "pingInterval s")
  case None
  with assms show ?thesis by (simp add: stopPinging_null timers_ok_def ping_timers_def)
next
  case (Some h)
  from assms Some obtain d where
    pt: "filter (\<lambda>t. cb t = CbPing) (timers s) = [\<lparr>tid = h, due = d, period = Some PING_INTERVAL, cb = CbPing\<rparr>]"
    by (auto simp: timers_ok_def ping_timers_def)
  have "filter (\<lambda>t. cb t = CbPing) (filter (\<lambda>t. tid t \<noteq> h) (timers s)) = []"
    by (subst filter_swap) (simp add: pt)
  moreover have "distinct (map tid (filter (\<lambda>t. tid t \<noteq> h) (timers s)))"
    using assms by (simp add: timers_ok_def distinct_map_filter)
  moreover have "\<forall>t \<in> set (filter (\<lambda>t. tid t \<noteq> h) (timers s)).
            0 < tid t \<and> tid t < next_timer s \<and> now s \<le> due t
            \<and> (period t \<noteq> None \<longrightarrow> cb t = CbPing)"
    using assms by (simp add: timers_ok_def)
  moreover have "0 < next_timer s" using assms by (simp add: timers_ok_def)
  ultimately show ?thesis using Some
    by (simp add: stopPinging_null [OF assms] clearInterval_def timers_ok_def ping_timers_def)
qed

lemma timers_ok_on_visibilitychange: 
  assumes "timers_ok s" shows "timers_ok (on_visibilitychange (s\<lparr>hidden := h\<rparr>))"
proof (cases h)
  case True
  have "stopPinging (s\<lparr>hidden := True\<rparr>) = (stopPinging s)\<lparr>hidden := True\<rparr>"
    by (simp add: stopPinging_def clearInterval_def truthy_def split: option.splits)
  with True assms show ?thesis by (simp add: on_visibilitychange_def timers_ok_stopPinging)
next
  case False
  have "timers_ok (s\<lparr>hidden := False, hidden := True\<rparr>)" using assms by (simp add: timers_ok_def ping_timers_def)
  with False show ?thesis by (simp add: on_visibilitychange_def timers_ok_startPinging)
qed

lemma timers_ok_run_callback: "timers_ok s \<Longrightarrow> timers_ok (run_callback f s)"
  by (cases f) (simp_all add: run_callback_def timers_ok_ping timers_ok_poll timers_ok_hideNotification timers_ok_removeFaded)

lemma filter_remove1_other: "\<not> P t \<Longrightarrow> filter P (remove1 t xs) = filter P xs"
  by (induction xs) auto

lemma ping_timer_periodic:
  assumes "timers_ok s" "t \<in> set (timers s)" "cb t = CbPing"
  shows "pingInterval s = Some (tid t) \<and> period t = Some PING_INTERVAL \<and> ping_timers s = [t]"
proof -
  from assms have "t \<in> set (ping_timers s)" by (simp add: ping_timers_def)
  with assms(1) show ?thesis by (cases "pingInterval s") (auto simp: timers_ok_def)
qed

lemma distinct_tid_remove1: "distinct (map tid ts) \<Longrightarrow> distinct (map tid (remove1 t ts))"
  by (metis distinct_map distinct_remove1 inj_on_subset set_remove1_subset)

lemma timers_ok_timeout_spent:
  assumes "timers_ok s" "t \<in> set (timers s)" "period t = None"
  shows "timers_ok (s\<lparr>timers := remove1 t (timers s)\<rparr>)"
proof -
  have "cb t \<noteq> CbPing" using ping_timer_periodic [OF assms(1,2)] assms(3) by auto
  then have "filter (\<lambda>t. cb t = CbPing) (remove1 t (timers s)) = filter (\<lambda>t. cb t = CbPing) (timers s)"
    by (simp add: filter_remove1_other)
  moreover have "\<And>u. u \<in> set (remove1 t (timers s)) \<Longrightarrow> u \<in> set (timers s)"
    by (meson notin_set_remove1)
  ultimately show ?thesis using assms(1)
    by (simp add: timers_ok_def ping_timers_def distinct_tid_remove1)
qed

lemma tid_again: "map tid (map (again t p) ts) = map tid ts"
  by (induction ts) (auto simp: again_def)

lemma filter_cb_again: "filter (\<lambda>u. cb u = c) (map (again t p) ts) = map (again t p) (filter (\<lambda>u. cb u = c) ts)"
  by (induction ts) (auto simp: again_def)

lemma timers_ok_interval_again:
  assumes "timers_ok s" "t \<in> set (timers s)" "period t = Some p" "due t \<le> now s"
  shows "timers_ok (s\<lparr>timers := map (again t p) (timers s)\<rparr>)"
proof -
  from assms have c: "cb t = CbPing" by (auto simp: timers_ok_def)
  from ping_timer_periodic [OF assms(1,2) c] assms(3)
  have pi: "pingInterval s = Some (tid t)" and p: "p = PING_INTERVAL" and pt: "ping_timers s = [t]" by auto
  have t: "again t p t = \<lparr>tid = tid t, due = due t + p, period = Some PING_INTERVAL, cb = CbPing\<rparr>"
    using c assms(3) p by (simp add: again_def)
  have a: "\<forall>u \<in> set (timers s). 0 < tid (again t p u) \<and> tid (again t p u) < next_timer s
            \<and> now s \<le> due (again t p u)
            \<and> (period (again t p u) \<noteq> None \<longrightarrow> cb (again t p u) = CbPing)"
    using assms(1) by (auto simp: timers_ok_def again_def)
  have b: "ping_timers (s\<lparr>timers := map (again t p) (timers s)\<rparr>) = [again t p t]"
    using pt by (simp add: ping_timers_def filter_cb_again)
  show ?thesis using assms(1,4) pi a
    unfolding timers_ok_def b t
    by (simp add: tid_again p del: map_map)
qed

subsection \<open>Both invariants hold in every state the event loop can reach\<close>

lemma timers_ok_fire:
  assumes "timers_ok s" "t \<in> set (timers s)" "due t \<le> now s"
  shows "timers_ok (fire t s)"
proof (cases "period t")
  case None
  with assms show ?thesis by (simp add: fire_def timers_ok_run_callback timers_ok_timeout_spent)
next
  case (Some p)
  with assms show ?thesis by (simp add: fire_def timers_ok_run_callback timers_ok_interval_again)
qed

lemma timers_ok_settle: 
  assumes "timers_ok s" shows "timers_ok (settle q r s)"
proof -
  have "timers_ok (s\<lparr>inflight := remove1 q (inflight s)\<rparr>)"
    using assms by (simp add: timers_ok_def ping_timers_def)
  then show ?thesis
    by (cases "awaiter q") (simp_all add: settle_def timers_ok_ping_resumed timers_ok_poll_resumed)
qed

lemma find_in_set: "find P xs = Some x \<Longrightarrow> x \<in> set xs \<and> P x"
  by (induction xs) (auto split: if_splits)

lemma timers_ok_elapse:
  assumes "timers_ok s" "list_all (\<lambda>t. now s + d \<le> due t) (timers s)"
  shows "timers_ok (s\<lparr>now := now s + d\<rparr>)"
  using assms by (auto simp add: timers_ok_def ping_timers_def list_all_iff)

lemma timers_ok_step:
  assumes "timers_ok s" "step ev s = Some s'"
  shows "timers_ok s'"
proof (cases ev)
  case (Elapse d)
  with assms show ?thesis by (auto simp: step_def timers_ok_elapse split: if_splits)
next
  case (Fire i)
  with assms show ?thesis
    by (auto simp: step_def timers_ok_fire split: option.splits if_splits dest: find_in_set)
next
  case (Settle i r)
  with assms show ?thesis
    by (auto simp: step_def timers_ok_settle split: option.splits)
next
  case (VisibilityChange h)
  with assms show ?thesis
    by (auto simp: step_def timers_ok_on_visibilitychange)
qed

lemma timers_ok_run: "timers_ok s \<Longrightarrow> run evs s = Some s' \<Longrightarrow> timers_ok s'"
  by (induction evs arbitrary: s) (auto split: option.splits dest: timers_ok_step)

lemma timers_ok_init: "timers_ok ((init h)\<lparr>hidden := True\<rparr>)"
  by (simp add: init_def timers_ok_def ping_timers_def)

lemma timers_ok_boot: "timers_ok (boot h)"
  using timers_ok_startPinging [OF timers_ok_init, of h]
  by (simp add: boot_def setup_extension_def timers_ok_log)

text \<open>The same for the overlay invariant.\<close>

lemma overlay_ok_showNotification: "overlay_ok s \<Longrightarrow> overlay_ok (showNotification m ty s)"
  by (auto simp add: overlay_ok_def showNotification_def remove_node_def Let_def split: option.splits)

lemma overlay_ok_removeFaded: "overlay_ok s \<Longrightarrow> overlay_ok (removeFaded s)"
  by (auto simp add: overlay_ok_def removeFaded_def remove_node_def split: option.splits)

lemma overlay_ok_hideNotification: "overlay_ok (hideNotification s) = overlay_ok s"
  by (auto simp add: overlay_ok_def hideNotification_def set_opacity_def setTimeout_def split: option.splits)

lemma overlay_ok_setTimeout: "overlay_ok (setTimeout f d s) = overlay_ok s"
  by (simp add: overlay_ok_def setTimeout_def)

lemma overlay_ok_fetch: "overlay_ok (fetch k s) = overlay_ok s"
  by (simp add: overlay_ok_def fetch_def)

lemma overlay_ok_log: "overlay_ok (log m s) = overlay_ok s"
  by (simp add: overlay_ok_def log_def)

lemma overlay_ok_checkState: "overlay_ok s \<Longrightarrow> overlay_ok (snd (checkState r s))"
  by (simp add: checkState_def overlay_ok_setTimeout overlay_ok_showNotification overlay_ok_hideNotification split: fetch_result.splits)

lemma overlay_ok_poll_resumed: "overlay_ok s \<Longrightarrow> overlay_ok (poll_resumed r s)"
  using overlay_ok_checkState [of s r]
  by (auto simp add: poll_resumed_def overlay_ok_setTimeout split: prod.splits)

lemma overlay_ok_ping_resumed: "overlay_ok s \<Longrightarrow> overlay_ok (ping_resumed r s)"
  by (simp add: ping_resumed_def overlay_ok_log pollUntilRunning_def poll_def overlay_ok_fetch
      overlay_ok_showNotification overlay_ok_hideNotification split: fetch_result.splits)

lemma overlay_ok_run_callback: "overlay_ok s \<Longrightarrow> overlay_ok (run_callback f s)"
  by (cases f) (simp_all add: run_callback_def ping_def poll_def overlay_ok_fetch overlay_ok_hideNotification overlay_ok_removeFaded)

lemma overlay_ok_fire: "overlay_ok s \<Longrightarrow> overlay_ok (fire t s)"
proof -
  assume a: "overlay_ok s"
  have "overlay_ok (case period t of None \<Rightarrow> s\<lparr>timers := remove1 t (timers s)\<rparr>
        | Some p \<Rightarrow> s\<lparr>timers := map (again t p) (timers s)\<rparr>)"
    using a by (simp add: overlay_ok_def split: option.splits)
  then show ?thesis by (simp add: fire_def overlay_ok_run_callback)
qed

lemma overlay_ok_settle: "overlay_ok s \<Longrightarrow> overlay_ok (settle q r s)"
proof -
  assume a: "overlay_ok s"
  have "overlay_ok (s\<lparr>inflight := remove1 q (inflight s)\<rparr>)"
    using a by (simp add: overlay_ok_def)
  then show ?thesis
    by (cases "awaiter q") (simp_all add: settle_def overlay_ok_ping_resumed overlay_ok_poll_resumed)
qed

lemma overlay_ok_startPinging: "overlay_ok (startPinging s) = overlay_ok s"
  by (simp add: overlay_ok_def startPinging_def Let_def setInterval_def ping_def fetch_def truthy_def
      split: option.splits)

lemma overlay_ok_stopPinging: "overlay_ok (stopPinging s) = overlay_ok s"
  by (simp add: overlay_ok_def stopPinging_def clearInterval_def truthy_def split: option.splits)

lemma overlay_ok_step:
  assumes "overlay_ok s" "step ev s = Some s'"
  shows "overlay_ok s'"
proof (cases ev)
  case (Elapse d)
  with assms show ?thesis by (auto simp: step_def overlay_ok_def split: if_splits)
next
  case (Fire i)
  with assms show ?thesis
    by (auto simp: step_def overlay_ok_fire split: option.splits if_splits)
next
  case (Settle i r)
  with assms show ?thesis
    by (auto simp: step_def overlay_ok_settle split: option.splits)
next
  case (VisibilityChange h)
  have "overlay_ok (s\<lparr>hidden := h\<rparr>)" using assms(1) by (simp add: overlay_ok_def)
  with VisibilityChange assms show ?thesis
    by (auto simp: step_def on_visibilitychange_def overlay_ok_startPinging overlay_ok_stopPinging)
qed

lemma overlay_ok_run: "overlay_ok s \<Longrightarrow> run evs s = Some s' \<Longrightarrow> overlay_ok s'"
  by (induction evs arbitrary: s) (auto split: option.splits dest: overlay_ok_step)

lemma overlay_ok_boot: "overlay_ok (boot h)"
  by (simp add: boot_def setup_extension_def overlay_ok_log overlay_ok_startPinging)
     (simp add: overlay_ok_def init_def)

subsection \<open>A poll session and the heartbeat timer\<close>

lemma heartbeat_timer_fetch: "heartbeat_timer (fetch k s) = heartbeat_timer s"
  by (simp add: heartbeat_timer_def ping_timers_def fetch_def)

lemma heartbeat_timer_setTimeout: "f \<noteq> CbPing \<Longrightarrow> heartbeat_timer (setTimeout f d s) = heartbeat_timer s"
  by (simp add: heartbeat_timer_def ping_timers_def setTimeout_def)

lemma heartbeat_timer_showNotification: "heartbeat_timer (showNotification m ty s) = heartbeat_timer s"
  by (simp add: heartbeat_timer_def ping_timers_def showNotification_def remove_node_def Let_def split: option.splits)

lemma heartbeat_timer_hideNotification: "heartbeat_timer (hideNotification s) = heartbeat_timer s"
  by (simp add: heartbeat_timer_def ping_timers_def hideNotification_def setTimeout_def set_opacity_def split: option.splits)

lemma heartbeat_timer_removeFaded: "heartbeat_timer (removeFaded s) = heartbeat_timer s"
  by (simp add: heartbeat_timer_def ping_timers_def removeFaded_def remove_node_def split: option.splits)

lemma heartbeat_timer_checkState: "heartbeat_timer (snd (checkState r s)) = heartbeat_timer s"
  by (simp add: checkState_def heartbeat_timer_setTimeout heartbeat_timer_showNotification
      heartbeat_timer_hideNotification split: fetch_result.splits)

lemma heartbeat_timer_poll_resumed: "heartbeat_timer (poll_resumed r s) = heartbeat_timer s"
  using heartbeat_timer_checkState [of r s]
  by (auto simp add: poll_resumed_def heartbeat_timer_setTimeout split: prod.splits)

lemma heartbeat_timer_session: "session rs s = Some (n, s') \<Longrightarrow> heartbeat_timer s' = heartbeat_timer s"
proof (induction rs arbitrary: s n)
  case Nil
  then show ?case by simp
next
  case (Cons r rs)
  obtain fin s1 where c: "checkState r s = (fin, s1)" by (cases "checkState r s")
  then have h: "heartbeat_timer s1 = heartbeat_timer s" using heartbeat_timer_checkState [of r s] by simp
  show ?case
  proof (cases fin)
    case True
    with Cons.prems c h show ?thesis by simp
  next
    case False
    with Cons.prems c obtain m where "session rs s1 = Some (m, s')" by (auto split: prod.splits)
    with Cons.IH h show ?thesis by simp
  qed
qed

lemma again_other: "t \<notin> set ts \<Longrightarrow> map (again t p) ts = ts"
  by (induction ts) (auto simp: again_def)

lemma heartbeat_timer_spend:
  assumes "cb t \<noteq> CbPing"
  shows "heartbeat_timer (case period t of None \<Rightarrow> s\<lparr>timers := remove1 t (timers s)\<rparr>
           | Some p \<Rightarrow> s\<lparr>timers := map (again t p) (timers s)\<rparr>) = heartbeat_timer s"
proof (cases "period t")
  case None
  with assms show ?thesis by (simp add: heartbeat_timer_def ping_timers_def filter_remove1_other)
next
  case (Some p)
  have "t \<notin> set (filter (\<lambda>u. cb u = CbPing) (timers s))" using assms by simp
  then show ?thesis using Some
    by (simp add: heartbeat_timer_def ping_timers_def filter_cb_again again_other)
qed

lemma heartbeat_timer_fire:
  assumes "cb t \<noteq> CbPing" shows "heartbeat_timer (fire t s) = heartbeat_timer s"
  using assms heartbeat_timer_spend [OF assms, of s]
  by (cases "cb t") (simp_all add: fire_def run_callback_def poll_def heartbeat_timer_fetch
       heartbeat_timer_hideNotification heartbeat_timer_removeFaded)

lemma heartbeat_timer_settle_poll:
  assumes "awaiter q = AwaitCheckState" shows "heartbeat_timer (settle q r s) = heartbeat_timer s"
proof -
  have "heartbeat_timer (s\<lparr>inflight := remove1 q (inflight s)\<rparr>) = heartbeat_timer s"
    by (simp add: heartbeat_timer_def ping_timers_def)
  with assms show ?thesis by (simp add: settle_def heartbeat_timer_poll_resumed)
qed

subsection \<open>The heartbeat timer of a visible tab\<close>

lemma visible_has_heartbeat_timer:
  assumes "timers_ok s" "\<not> hidden s"
  shows "\<exists>t. ping_timers s = [t] \<and> pingInterval s = Some (tid t) \<and> period t = Some PING_INTERVAL
             \<and> now s \<le> due t \<and> due t \<le> now s + PING_INTERVAL"
proof -
  from assms obtain h where h: "pingInterval s = Some h" by (auto simp: timers_ok_def)
  with assms(1) obtain d where d: "ping_timers s = [\<lparr>tid = h, due = d, period = Some PING_INTERVAL, cb = CbPing\<rparr>]"
      "d \<le> now s + PING_INTERVAL" by (auto simp: timers_ok_def)
  let ?t = "\<lparr>tid = h, due = d, period = Some PING_INTERVAL, cb = CbPing\<rparr>"
  have "?t \<in> set (ping_timers s)" using d by simp
  then have "?t \<in> set (timers s)" by (simp add: ping_timers_def)
  with assms(1) have "now s \<le> d" by (auto simp: timers_ok_def)
  with h d show ?thesis by simp
qed

subsection \<open>The overlay under show and hide\<close>

lemma find_fresh_timer:
  "\<forall>t \<in> set ts. tid t \<noteq> i \<Longrightarrow> find (\<lambda>t. tid t = i) (ts @ [p]) = (if tid p = i then Some p else None)"
  by (induction ts) auto

lemma overlay_ok_calls: "overlay_ok s \<Longrightarrow> overlay_ok (overlay_calls cs s)"
proof (induction cs arbitrary: s)
  case Nil
  then show ?case by simp
next
  case (Cons c cs)
  have "overlay_ok (apply_call c s)"
    using Cons.prems
    by (cases c) (simp_all add: overlay_ok_showNotification overlay_ok_hideNotification overlay_ok_removeFaded)
  then show ?case using Cons.IH by simp
qed

lemma overlay_calls_append: "overlay_calls (cs @ ds) s = overlay_calls ds (overlay_calls cs s)"
  by (induction cs arbitrary: s) auto

lemma show_replaces:
  assumes "overlay_ok s"
  shows "body (showNotification m ty s) = [next_element s]
     \<and> notificationEl (showNotification m ty s) = Some (next_element s)
     \<and> displayed (showNotification m ty s) =
         [\<lparr>textContent = m, background = (if ty = ''info'' then ''#1e40af'' else ''#166534''), opacity = ''''\<rparr>]"
  using assms
  by (auto simp add: overlay_ok_def showNotification_def remove_node_def displayed_def Let_def split: option.splits)

subsection \<open>One poll session\<close>

lemma checkState_starting: "checkState (Resolved (Some ''starting'')) s = (False, s)"
  by (simp add: checkState_def)

lemma checkState_done: "r \<noteq> Resolved (Some ''starting'') \<Longrightarrow> fst (checkState r s)"
  by (cases r) (simp_all add: checkState_def)

lemma session_still_starting: "session (replicate n (Resolved (Some ''starting''))) s = None"
  by (induction n) (simp_all add: checkState_starting)

lemma session_after_starting:
  "session (replicate n (Resolved (Some ''starting'')) @ rs) s
     = map_option (\<lambda>(m, s'). (n + m, s')) (session rs s)"
proof (induction n)
  case 0
  show ?case by (cases "session rs s") auto
next
  case (Suc n)
  then show ?case by (cases "session rs s") (auto simp add: checkState_starting)
qed

lemma session_ends:
  assumes "r \<noteq> Resolved (Some ''starting'')"
  shows "session (r # rest) s = Some (1, snd (checkState r s))"
  using checkState_done [OF assms, of s] by (cases "checkState r s") simp

lemma poll_settled_starting:
  assumes "find (\<lambda>q. rid q = i) (inflight s) = Some q" "awaiter q = AwaitCheckState"
  shows "\<exists>s'. step (Settle i (Resolved (Some ''starting''))) s = Some s'
     \<and> poll_requests s' = remove1 q (poll_requests s)
     \<and> poll_timers s' = poll_timers s @ [\<lparr>tid = next_timer s, due = now s + 2000, period = None, cb = CbPoll\<rparr>]
     \<and> sent s' = sent s"
  using assms
  by (simp add: step_def settle_def poll_resumed_def checkState_starting setTimeout_def
      poll_requests_def poll_timers_def filter_remove1)

lemma poll_settled_done:
  assumes "find (\<lambda>q. rid q = i) (inflight s) = Some q" "awaiter q = AwaitCheckState"
    "r \<noteq> Resolved (Some ''starting'')"
  shows "\<exists>s'. step (Settle i r) s = Some s'
     \<and> poll_requests s' = remove1 q (poll_requests s)
     \<and> poll_timers s' = poll_timers s
     \<and> sent s' = sent s"
proof (cases r)
  case Rejected
  with assms show ?thesis
    by (simp add: step_def settle_def poll_resumed_def checkState_def
      poll_requests_def poll_timers_def filter_remove1)
next
  case (Resolved st)
  with assms show ?thesis
    by (simp add: step_def settle_def poll_resumed_def checkState_def setTimeout_def
      showNotification_def hideNotification_def set_opacity_def remove_node_def Let_def
      poll_requests_def poll_timers_def filter_remove1 split: option.splits)
qed

lemma Suc_length_remove1: "x \<in> set xs \<Longrightarrow> Suc (length (remove1 x xs)) = length xs"
  by (induction xs) auto

lemma poll_timer_fires:
  assumes "t \<in> set (timers s)" "cb t = CbPoll" "period t = None"
  shows "poll_timers (fire t s) = remove1 t (poll_timers s)
     \<and> poll_requests (fire t s) = poll_requests s @ [\<lparr>rid = next_request s, awaiter = AwaitCheckState, deadline = now s + 5000\<rparr>]
     \<and> poll_attempts (fire t s) = poll_attempts s @ [now s]
     \<and> active_sessions (fire t s) = active_sessions s"
proof -
  have "t \<in> set (poll_timers s)" using assms by (simp add: poll_timers_def)
  then have "Suc (length (remove1 t (poll_timers s))) = length (poll_timers s)"
    by (rule Suc_length_remove1)
  then show ?thesis using assms
    by (simp add: fire_def run_callback_def poll_def fetch_def poll_timers_def poll_requests_def
        poll_attempts_def active_sessions_def filter_remove1)
qed

subsection \<open>Heartbeats and visibility\<close>


text \<open>Heartbeats are sent by \<open>ping\<close> only, and \<open>ping\<close> sends none in a hidden tab.\<close>

lemma sent_showNotification: "sent (showNotification m ty s) = sent s" "hidden (showNotification m ty s) = hidden s"
  by (simp_all add: showNotification_def remove_node_def Let_def split: option.splits)

lemma sent_hideNotification: "sent (hideNotification s) = sent s" "hidden (hideNotification s) = hidden s"
  by (simp_all add: hideNotification_def set_opacity_def setTimeout_def split: option.splits)

lemma sent_removeFaded: "sent (removeFaded s) = sent s" "hidden (removeFaded s) = hidden s"
  by (simp_all add: removeFaded_def remove_node_def split: option.splits)

lemma quiet_checkState:
  "sent (snd (checkState r s)) = sent s \<and> hidden (snd (checkState r s)) = hidden s"
  by (simp add: checkState_def setTimeout_def sent_showNotification sent_hideNotification split: fetch_result.splits)

lemma quiet_poll_resumed:
  "sent (poll_resumed r s) = sent s \<and> hidden (poll_resumed r s) = hidden s"
  using quiet_checkState [of r s]
  by (auto simp add: poll_resumed_def setTimeout_def split: prod.splits)

lemma quiet_ping_resumed:
  "heartbeats (ping_resumed r s) = heartbeats s \<and> hidden (ping_resumed r s) = hidden s"
  by (simp add: ping_resumed_def log_def pollUntilRunning_def poll_def fetch_def heartbeats_def
      sent_showNotification sent_hideNotification split: fetch_result.splits)

lemma quiet_settle:
  "heartbeats (settle q r s) = heartbeats s \<and> hidden (settle q r s) = hidden s"
proof (cases "awaiter q")
  case AwaitPing
  then show ?thesis
    using quiet_ping_resumed [of r "s\<lparr>inflight := remove1 q (inflight s)\<rparr>"]
    by (simp add: settle_def heartbeats_def)
next
  case AwaitCheckState
  then show ?thesis
    using quiet_poll_resumed [of r "s\<lparr>inflight := remove1 q (inflight s)\<rparr>"]
    by (simp add: settle_def heartbeats_def)
qed

lemma quiet_run_callback:
  "hidden s \<Longrightarrow> heartbeats (run_callback f s) = heartbeats s \<and> hidden (run_callback f s)"
  by (cases f) (simp_all add: run_callback_def ping_def poll_def fetch_def heartbeats_def
      sent_hideNotification sent_removeFaded)

lemma quiet_fire:
  assumes "hidden s" shows "heartbeats (fire t s) = heartbeats s \<and> hidden (fire t s)"
proof -
  let ?s = "case period t of None \<Rightarrow> s\<lparr>timers := remove1 t (timers s)\<rparr>
             | Some p \<Rightarrow> s\<lparr>timers := map (again t p) (timers s)\<rparr>"
  have "hidden ?s" "heartbeats ?s = heartbeats s"
    using assms by (simp_all add: heartbeats_def split: option.splits)
  then show ?thesis using quiet_run_callback [of ?s "cb t"] by (simp add: fire_def)
qed

lemma quiet_stopPinging:
  "sent (stopPinging s) = sent s \<and> hidden (stopPinging s) = hidden s \<and> inflight (stopPinging s) = inflight s"
  by (simp add: stopPinging_def clearInterval_def truthy_def split: option.splits)

lemma no_heartbeat_while_hidden:
  assumes "hidden s" "ev \<noteq> VisibilityChange False" "step ev s = Some s'"
  shows "heartbeats s' = heartbeats s \<and> hidden s'"
proof (cases ev)
  case (Elapse d)
  with assms show ?thesis by (auto simp: step_def heartbeats_def split: if_splits)
next
  case (Fire i)
  with assms show ?thesis
    by (auto simp: step_def quiet_fire split: option.splits if_splits)
next
  case (Settle i r)
  with assms show ?thesis
    by (auto simp: step_def quiet_settle split: option.splits)
next
  case (VisibilityChange h)
  with assms have h: "h" by simp
  with VisibilityChange assms(3) show ?thesis
    using quiet_stopPinging [of "s\<lparr>hidden := True\<rparr>"]
    by (auto simp: step_def on_visibilitychange_def heartbeats_def)
qed




lemma hide_keeps_polls:
  assumes "timers_ok s"
  shows "poll_timers (stopPinging s) = poll_timers s \<and> ping_timers (stopPinging s) = []
     \<and> pingInterval (stopPinging s) = None"
proof (cases "pingInterval s")
  case None
  with assms show ?thesis by (simp add: stopPinging_def timers_ok_def)
next
  case (Some h)
  from assms Some obtain d where
    pt: "filter (\<lambda>t. cb t = CbPing) (timers s) = [\<lparr>tid = h, due = d, period = Some PING_INTERVAL, cb = CbPing\<rparr>]"
    by (auto simp: timers_ok_def ping_timers_def)
  let ?p = "\<lparr>tid = h, due = d, period = Some PING_INTERVAL, cb = CbPing\<rparr>"
  have "?p \<in> set (filter (\<lambda>t. cb t = CbPing) (timers s))" by (simp add: pt)
  then have pin: "?p \<in> set (timers s)" by simp
  have dis: "distinct (map tid (timers s))" using assms by (simp add: timers_ok_def)
  have "\<forall>t \<in> set (timers s). cb t = CbPoll \<longrightarrow> tid t \<noteq> h"
  proof (intro ballI impI notI)
    fix t assume t: "t \<in> set (timers s)" "cb t = CbPoll" "tid t = h"
    have "t = ?p" using tid_unique [OF dis t(1) pin] t(3) by simp
    with t(2) show False by simp
  qed
  then have "filter (\<lambda>t. cb t = CbPoll) (filter (\<lambda>t. tid t \<noteq> h) (timers s)) = filter (\<lambda>t. cb t = CbPoll) (timers s)"
    by (simp add: filter_filter cong: filter_cong) (metis (mono_tags, lifting) filter_cong)
  moreover have "filter (\<lambda>t. cb t = CbPing) (filter (\<lambda>t. tid t \<noteq> h) (timers s)) = []"
    by (subst filter_swap) (simp add: pt)
  ultimately show ?thesis using Some
    by (simp add: stopPinging_null [OF assms] clearInterval_def poll_timers_def ping_timers_def)
qed

subsection \<open>The poller in a hidden tab\<close>

text \<open>The poller never reads \<open>document.hidden\<close>: its functions commute with the flag.\<close>

lemma hidden_setTimeout: "setTimeout f d (u\<lparr>hidden := b\<rparr>) = (setTimeout f d u)\<lparr>hidden := b\<rparr>"
  by (simp add: setTimeout_def)

lemma hidden_fetch_commute: "fetch k (u\<lparr>hidden := b\<rparr>) = (fetch k u)\<lparr>hidden := b\<rparr>"
  by (simp add: fetch_def)

lemma hidden_showNotification:
  "showNotification m ty (u\<lparr>hidden := b\<rparr>) = (showNotification m ty u)\<lparr>hidden := b\<rparr>"
  by (simp add: showNotification_def remove_node_def Let_def split: option.splits)

lemma hidden_hideNotification: "hideNotification (u\<lparr>hidden := b\<rparr>) = (hideNotification u)\<lparr>hidden := b\<rparr>"
  by (simp add: hideNotification_def setTimeout_def set_opacity_def split: option.splits)

lemma hidden_removeFaded: "removeFaded (u\<lparr>hidden := b\<rparr>) = (removeFaded u)\<lparr>hidden := b\<rparr>"
  by (simp add: removeFaded_def remove_node_def split: option.splits)

lemma hidden_checkState:
  "checkState r (u\<lparr>hidden := b\<rparr>) = (fst (checkState r u), (snd (checkState r u))\<lparr>hidden := b\<rparr>)"
  by (simp add: checkState_def hidden_setTimeout hidden_showNotification hidden_hideNotification
      split: fetch_result.splits)

lemma hidden_poll_resumed: "poll_resumed r (u\<lparr>hidden := b\<rparr>) = (poll_resumed r u)\<lparr>hidden := b\<rparr>"
  by (cases "checkState r u") (simp add: poll_resumed_def hidden_checkState hidden_setTimeout)

lemma hidden_settle_poll:
  assumes "awaiter q = AwaitCheckState"
  shows "settle q r (u\<lparr>hidden := b\<rparr>) = (settle q r u)\<lparr>hidden := b\<rparr>"
proof -
  have cm: "(u\<lparr>hidden := b\<rparr>)\<lparr>inflight := remove1 q (inflight u)\<rparr>
              = (u\<lparr>inflight := remove1 q (inflight u)\<rparr>)\<lparr>hidden := b\<rparr>"
    by simp
  have "settle q r (u\<lparr>hidden := b\<rparr>)
          = poll_resumed r ((u\<lparr>hidden := b\<rparr>)\<lparr>inflight := remove1 q (inflight u)\<rparr>)"
    using assms by (simp add: settle_def)
  also have "\<dots> = poll_resumed r ((u\<lparr>inflight := remove1 q (inflight u)\<rparr>)\<lparr>hidden := b\<rparr>)"
    by (subst cm) (rule refl)
  also have "\<dots> = (poll_resumed r (u\<lparr>inflight := remove1 q (inflight u)\<rparr>))\<lparr>hidden := b\<rparr>"
    by (rule hidden_poll_resumed)
  also have "\<dots> = (settle q r u)\<lparr>hidden := b\<rparr>"
    using assms by (simp add: settle_def)
  finally show ?thesis .
qed

lemma hidden_fire:
  assumes "cb t \<noteq> CbPing"
  shows "fire t (u\<lparr>hidden := b\<rparr>) = (fire t u)\<lparr>hidden := b\<rparr>"
proof -
  let ?spent = "\<lambda>u. case period t of None \<Rightarrow> u\<lparr>timers := remove1 t (timers u)\<rparr>
             | Some p \<Rightarrow> u\<lparr>timers := map (again t p) (timers u)\<rparr>"
  have sp: "?spent (u\<lparr>hidden := b\<rparr>) = (?spent u)\<lparr>hidden := b\<rparr>"
    by (simp split: option.splits)
  show ?thesis using assms unfolding fire_def sp
    by (cases "cb t") (simp_all add: run_callback_def poll_def hidden_fetch_commute
        hidden_hideNotification hidden_removeFaded)
qed

lemma hidden_session:
  "session rs (u\<lparr>hidden := b\<rparr>) = map_option (\<lambda>(n, v). (n, v\<lparr>hidden := b\<rparr>)) (session rs u)"
proof (induction rs arbitrary: u)
  case Nil
  show ?case by simp
next
  case (Cons r rs)
  obtain fin u1 where c: "checkState r u = (fin, u1)" by (cases "checkState r u")
  show ?case
  proof (cases fin)
    case True
    with c show ?thesis by (simp add: hidden_checkState)
  next
    case False
    with c Cons.IH [of u1] show ?thesis
      by (cases "session rs u1") (auto simp add: hidden_checkState)
  qed
qed

section \<open>The claims\<close>

text \<open>
  C4. Scenario B: the first heartbeat is answered "starting", the first poll attempt
  "starting", the second "running". The overlay shows the info notification "starting up",
  then the success notification "ready"; \<open>hideNotification\<close> runs on it 2 seconds later
  (not one millisecond earlier) and the element is gone after the fade; the poller makes
  exactly two poll attempts, the first right after the heartbeat's answer and the second
  2 seconds after the first one's answer, and then no session is active: nothing is in
  flight and the heartbeat timer is the only timer left.
\<close>

theorem scenario_B_trace:
  "map (\<lambda>n. map_option observe (run (take n scenario_B) (boot False))) [0, 1, 3, 5, 7, 8, 9, 11] =
     [Some ([], 0, [], 0),
      Some ([(''ComfyUI is starting up... Please wait.'', ''#1e40af'', '''')], 1, [0], 0),
      Some ([(''ComfyUI is starting up... Please wait.'', ''#1e40af'', '''')], 1, [0], 150),
      Some ([(''ComfyUI is starting up... Please wait.'', ''#1e40af'', '''')], 1, [0, 2150], 2150),
      Some ([(''ComfyUI is ready!'', ''#166534'', '''')], 0, [0, 2150], 2240),
      Some ([(''ComfyUI is ready!'', ''#166534'', '''')], 0, [0, 2150], 4240),
      Some ([(''ComfyUI is ready!'', ''#166534'', ''0'')], 0, [0, 2150], 4240),
      Some ([], 0, [0, 2150], 4540)]
   \<and> run (take 7 scenario_B @ [Elapse 1999, Fire 3]) (boot False) = None
   \<and> map_option (\<lambda>s. (inflight s, map cb (timers s))) (run scenario_B (boot False)) = Some ([], [CbPing])"
  by (simp add: scenario_B_def observe_def script_defs observation_defs)

text \<open>
  C10. A poll session never touches the heartbeat timer. Starting a session, every branch of
  \<open>checkState\<close>, the rest of \<open>poll\<close>, a settled poll request, a fired timer of the
  session (its next \<open>poll\<close>, the dismissal of "ready", the removal after the fade) and a
  whole session run to its end all leave \<open>pingInterval\<close> and the heartbeat's interval timer
  as they were: the interval is not created, replaced or cleared.
\<close>

theorem poll_session_keeps_heartbeat_timer:
  "heartbeat_timer (pollUntilRunning s) = heartbeat_timer s
   \<and> heartbeat_timer (snd (checkState r s)) = heartbeat_timer s
   \<and> heartbeat_timer (poll_resumed r s) = heartbeat_timer s
   \<and> (awaiter q = AwaitCheckState \<longrightarrow> heartbeat_timer (settle q r s) = heartbeat_timer s)
   \<and> (cb t \<noteq> CbPing \<longrightarrow> heartbeat_timer (fire t s) = heartbeat_timer s)
   \<and> (session rs s = Some (n, s') \<longrightarrow> heartbeat_timer s' = heartbeat_timer s)"
  by (simp add: pollUntilRunning_def poll_def heartbeat_timer_fetch heartbeat_timer_checkState
      heartbeat_timer_poll_resumed heartbeat_timer_settle_poll heartbeat_timer_fire heartbeat_timer_session)

theorem poll_session_keeps_heartbeat_timer_witness:
  "heartbeat_timer session_started = (Some 1, [\<lparr>tid = 1, due = 60000, period = Some 60000, cb = CbPing\<rparr>])
   \<and> awaiter \<lparr>rid = 2, awaiter = AwaitCheckState, deadline = 5000\<rparr> = AwaitCheckState
   \<and> heartbeat_timer (settle \<lparr>rid = 2, awaiter = AwaitCheckState, deadline = 5000\<rparr>
         (Resolved (Some ''running'')) session_started) = heartbeat_timer session_started
   \<and> cb \<lparr>tid = 2, due = 2000, period = None, cb = CbPoll\<rparr> \<noteq> CbPing
   \<and> heartbeat_timer (fire \<lparr>tid = 2, due = 2000, period = None, cb = CbPoll\<rparr> session_started)
       = heartbeat_timer session_started
   \<and> map_option fst (session [Resolved (Some ''starting''), Resolved None] session_started) = Some 2
   \<and> heartbeat_timer (snd (the (session [Resolved (Some ''starting''), Resolved None] session_started)))
       = heartbeat_timer session_started"
  using poll_session_keeps_heartbeat_timer
    [of session_started "Resolved (Some ''running'')"
        "\<lparr>rid = 2, awaiter = AwaitCheckState, deadline = 5000\<rparr>"
        "\<lparr>tid = 2, due = 2000, period = None, cb = CbPoll\<rparr>"
        "[Resolved (Some ''starting''), Resolved None]" 2
        "snd (the (session [Resolved (Some ''starting''), Resolved None] session_started))"]
  by (simp add: session_started_def heartbeat_timer_def script_defs observation_defs)

text \<open>
  C8. A heartbeat whose request fails (network failure, timeout, unreadable body) is
  absorbed. In every state the event loop can reach, settling a heartbeat request as
  rejected is handled, and all it does is drop the request and write one line to the
  console: the overlay, its element, the timers, \<open>pingInterval\<close>, the requests sent and the
  poll sessions are as before, nothing is retried out of band, and in a visible tab the
  heartbeat's interval timer is still there with its next tick at most 60 seconds away.
\<close>

theorem heartbeat_failure_absorbed:
  assumes "run evs (boot h0) = Some s"
    and "find (\<lambda>q. rid q = i) (inflight s) = Some q"
    and "awaiter q = AwaitPing"
  shows "\<exists>s'. step (Settle i Rejected) s = Some s'
     \<and> s' = s\<lparr>inflight := remove1 q (inflight s),
              console := console s @ [Log ''[ComfyUI Manager] Ping failed (manager may not be running)'']\<rparr>
     \<and> overlay s' = overlay s \<and> notificationEl s' = notificationEl s
     \<and> timers s' = timers s \<and> pingInterval s' = pingInterval s \<and> now s' = now s
     \<and> sent s' = sent s \<and> active_sessions s' = active_sessions s
     \<and> (\<not> hidden s' \<longrightarrow>
          (\<exists>t. ping_timers s' = [t] \<and> pingInterval s' = Some (tid t) \<and> period t = Some PING_INTERVAL
               \<and> now s' \<le> due t \<and> due t \<le> now s' + PING_INTERVAL))"
proof -
  let ?s' = "s\<lparr>inflight := remove1 q (inflight s),
              console := console s @ [Log ''[ComfyUI Manager] Ping failed (manager may not be running)'']\<rparr>"
  have st: "step (Settle i Rejected) s = Some ?s'"
    using assms(2,3) by (simp add: step_def settle_def ping_resumed_def log_def)
  have ok: "timers_ok ?s'"
    using timers_ok_step [OF timers_ok_run [OF timers_ok_boot assms(1)] st] .
  have act: "active_sessions ?s' = active_sessions s"
    using assms(3) by (simp add: active_sessions_def poll_requests_def poll_timers_def filter_remove1_other)
  have ov: "overlay ?s' = overlay s" by (simp add: overlay_def displayed_def)
  from st ok act ov visible_has_heartbeat_timer [OF ok] show ?thesis by simp
qed

theorem heartbeat_failure_absorbed_witness:
  "run [] (boot False) = Some (boot False)
   \<and> find (\<lambda>q. rid q = 1) (inflight (boot False)) = Some \<lparr>rid = 1, awaiter = AwaitPing, deadline = 5000\<rparr>
   \<and> awaiter \<lparr>rid = 1, awaiter = AwaitPing, deadline = 5000\<rparr> = AwaitPing
   \<and> map_option overlay (step (Settle 1 Rejected) (boot False)) = Some []
   \<and> map_option timers (step (Settle 1 Rejected) (boot False))
       = Some [\<lparr>tid = 1, due = 60000, period = Some 60000, cb = CbPing\<rparr>]
   \<and> map_option sent (step (Settle 1 Rejected) (boot False)) = Some [(AwaitPing, 0)]
   \<and> (\<exists>s'. step (Settle 1 Rejected) (boot False) = Some s' \<and> timers s' = timers (boot False)
         \<and> overlay s' = overlay (boot False))"
  using heartbeat_failure_absorbed [of "[]" False "boot False" 1 "\<lparr>rid = 1, awaiter = AwaitPing, deadline = 5000\<rparr>"]
  by (simp add: script_defs observation_defs)

text \<open>
  C1, as the code has it. \<open>ping\<close> calls \<open>pollUntilRunning\<close> on every "starting" answer and
  nothing records that a session is running: each heartbeat answered "starting" starts one
  more poll session, whatever the number of sessions already active. Its first poll request
  leaves at once.
\<close>

theorem starting_heartbeat_starts_session:
  assumes "find (\<lambda>q. rid q = i) (inflight s) = Some q"
    and "awaiter q = AwaitPing"
  shows "\<exists>s'. step (Settle i (Resolved (Some ''starting''))) s = Some s'
     \<and> active_sessions s' = Suc (active_sessions s)
     \<and> poll_requests s' = poll_requests s @ [\<lparr>rid = next_request s, awaiter = AwaitCheckState, deadline = now s + 5000\<rparr>]
     \<and> poll_attempts s' = poll_attempts s @ [now s]
     \<and> poll_timers s' = poll_timers s"
  using assms
  by (simp add: step_def settle_def ping_resumed_def log_def pollUntilRunning_def poll_def fetch_def
      showNotification_def remove_node_def Let_def active_sessions_def poll_requests_def poll_timers_def
      poll_attempts_def filter_remove1_other split: option.splits)

theorem starting_heartbeat_starts_session_witness:
  "find (\<lambda>q. rid q = 3) (inflight (the (run away_and_back (boot False))))
     = Some \<lparr>rid = 3, awaiter = AwaitPing, deadline = 5600\<rparr>
   \<and> awaiter \<lparr>rid = 3, awaiter = AwaitPing, deadline = 5600\<rparr> = AwaitPing
   \<and> active_sessions (the (run away_and_back (boot False))) = 1
   \<and> (\<exists>s'. step (Settle 3 (Resolved (Some ''starting''))) (the (run away_and_back (boot False))) = Some s'
         \<and> active_sessions s' = 2)"
  using starting_heartbeat_starts_session
    [of 3 "the (run away_and_back (boot False))" "\<lparr>rid = 3, awaiter = AwaitPing, deadline = 5600\<rparr>"]
  by (simp add: away_and_back_def script_defs observation_defs)

text \<open>
  C1 as stated fails: with one session active (its request 2 is in flight), the heartbeat
  sent when the tab is shown again is answered "starting", and two poll sessions are
  active at the same time, each with its own request in flight.
\<close>

theorem second_session_counterexample:
  "map_option active_sessions (run away_and_back (boot False)) = Some 1
   \<and> map_option active_sessions
       (run (away_and_back @ [Settle 3 (Resolved (Some ''starting''))]) (boot False)) = Some 2
   \<and> map_option poll_requests
       (run (away_and_back @ [Settle 3 (Resolved (Some ''starting''))]) (boot False))
     = Some [\<lparr>rid = 2, awaiter = AwaitCheckState, deadline = 5000\<rparr>,
             \<lparr>rid = 4, awaiter = AwaitCheckState, deadline = 5680\<rparr>]"
  by (simp add: away_and_back_def script_defs observation_defs)

text \<open>
  C2 on the code: the first heartbeat is answered "starting", the session's first poll
  fails after 5 seconds. The session ends (nothing in flight, no poll timer), but the
  catch branch of \<open>checkState\<close> returns without calling \<open>hideNotification\<close>: the "starting up"
  notification stays on the page at full opacity and no removal is scheduled. The sibling
  branch for any other state does dismiss it (faded, removal timer pending).
\<close>

theorem poll_failure_leaves_notification:
  "map_option observe (run [Settle 1 (Resolved (Some ''starting'')), Elapse 5000, Settle 2 Rejected] (boot False))
     = Some ([(''ComfyUI is starting up... Please wait.'', ''#1e40af'', '''')], 0, [0], 5000)
   \<and> map_option notificationEl
        (run [Settle 1 (Resolved (Some ''starting'')), Elapse 5000, Settle 2 Rejected] (boot False)) = Some (Some 1)
   \<and> map_option timers
        (run [Settle 1 (Resolved (Some ''starting'')), Elapse 5000, Settle 2 Rejected] (boot False))
      = Some [\<lparr>tid = 1, due = 60000, period = Some 60000, cb = CbPing\<rparr>]
   \<and> map_option inflight
        (run [Settle 1 (Resolved (Some ''starting'')), Elapse 5000, Settle 2 Rejected] (boot False)) = Some []
   \<and> map_option observe
        (run [Settle 1 (Resolved (Some ''starting'')), Elapse 5000, Settle 2 (Resolved (Some ''stopped''))] (boot False))
     = Some ([(''ComfyUI is starting up... Please wait.'', ''#1e40af'', ''0'')], 0, [0], 5000)
   \<and> map_option timers
        (run [Settle 1 (Resolved (Some ''starting'')), Elapse 5000, Settle 2 (Resolved (Some ''stopped''))] (boot False))
      = Some [\<lparr>tid = 1, due = 60000, period = Some 60000, cb = CbPing\<rparr>,
              \<lparr>tid = 2, due = 5300, period = None, cb = CbRemove\<rparr>]"
  by (simp add: observe_def script_defs observation_defs)

text \<open>
  C5. From any state the event loop can reach, after any sequence of \<open>show\<close> and \<open>hide\<close>
  calls (and of delayed removals running in between) the page holds at most one
  notification element, the one \<open>notificationEl\<close> refers to; and two \<open>show\<close>s in a row leave
  exactly the second message on the page.
\<close>

theorem one_notification_at_a_time:
  assumes "run evs (boot h0) = Some s"
  shows "length (body (overlay_calls cs s)) \<le> 1
     \<and> overlay_ok (overlay_calls cs s)
     \<and> map textContent (displayed (overlay_calls (cs @ [Show m1 ty1, Show m2 ty2]) s)) = [m2]"
proof -
  have ok: "overlay_ok (overlay_calls cs s)"
    using overlay_ok_calls [OF overlay_ok_run [OF overlay_ok_boot assms]] .
  then have "length (body (overlay_calls cs s)) \<le> 1"
    by (simp add: overlay_ok_def split: option.splits)
  moreover have "map textContent (displayed (overlay_calls (cs @ [Show m1 ty1, Show m2 ty2]) s)) = [m2]"
    using show_replaces [OF overlay_ok_showNotification [OF ok], of m2 ty2 m1 ty1]
    by (simp add: overlay_calls_append)
  ultimately show ?thesis using ok by simp
qed

theorem one_notification_at_a_time_witness:
  "run [Settle 1 (Resolved (Some ''starting''))] (boot False) = Some session_started
   \<and> overlay session_started = [(''ComfyUI is starting up... Please wait.'', ''#1e40af'', '''')]
   \<and> length (body (overlay_calls [Hide, Show ''a'' ''info'', Removal, Show ''b'' ''info''] session_started)) \<le> 1
   \<and> overlay (overlay_calls ([Hide] @ [Show ''a'' ''info'', Show ''b'' ''success'']) session_started)
       = [(''b'', ''#166534'', '''')]
   \<and> map textContent (displayed (overlay_calls ([Hide] @ [Show ''a'' ''info'', Show ''b'' ''success'']) session_started))
       = [''b'']"
  using one_notification_at_a_time [of "[Settle 1 (Resolved (Some ''starting''))]" False session_started
      "[Hide, Show ''a'' ''info'', Removal, Show ''b'' ''info'']"]
    one_notification_at_a_time [of "[Settle 1 (Resolved (Some ''starting''))]" False session_started
      "[Hide]" "''a''" "''info''" "''b''" "''success''"]
  by (simp add: session_started_def script_defs observation_defs)

text \<open>
  C3 on the code. The heartbeat's answer "running" starts the fade-out of "starting up" at
  2150 ms (removal due at 2450 ms); the poll's answer "running" shows "ready" at 2250 ms
  and \<open>checkState\<close> schedules its dismissal for 4250 ms; at 2450 ms the removal set by the
  earlier \<open>hideNotification\<close> runs, reads \<open>notificationEl\<close> and takes "ready" off the page,
  200 ms after it was shown and without a fade. The claim says the notification shown
  during the fade-out stays.
\<close>

theorem ready_removed_by_pending_hide:
  "map_option observe (run (take 10 ready_during_fade) (boot False))
     = Some ([(''ComfyUI is starting up... Please wait.'', ''#1e40af'', ''0'')], 1, [0, 2100], 2150)
   \<and> map_option observe (run (take 12 ready_during_fade) (boot False))
     = Some ([(''ComfyUI is ready!'', ''#166534'', '''')], 0, [0, 2100], 2250)
   \<and> map_option timers (run (take 12 ready_during_fade) (boot False))
     = Some [\<lparr>tid = 3, due = 62000, period = Some 60000, cb = CbPing\<rparr>,
             \<lparr>tid = 4, due = 2450, period = None, cb = CbRemove\<rparr>,
             \<lparr>tid = 5, due = 4250, period = None, cb = CbHide\<rparr>]
   \<and> map_option observe (run ready_during_fade (boot False))
     = Some ([], 0, [0, 2100], 2450)"
  by (simp add: ready_during_fade_def observe_def script_defs observation_defs)

text \<open>
  No visibility change is needed for it: with a backend that starts slowly the heartbeat's
  own tick at 60000 ms races with the session, and "ready", shown at 60150 ms, is taken
  off the page at 60350 ms.
\<close>

theorem ready_removed_in_visible_tab:
  "map_option observe (run (take 44 slow_start) (boot False))
     = Some ([(''ComfyUI is starting up... Please wait.'', ''#1e40af'', ''0'')], 1,
             [0, 6000, 12000, 18000, 24000, 30000, 36000, 42000, 48000, 54000, 60000], 60050)
   \<and> map_option hidden (run slow_start (boot False)) = Some False
   \<and> map_option observe (run (take 46 slow_start) (boot False))
     = Some ([(''ComfyUI is ready!'', ''#166534'', '''')], 0,
             [0, 6000, 12000, 18000, 24000, 30000, 36000, 42000, 48000, 54000, 60000], 60150)
   \<and> map_option observe (run slow_start (boot False))
     = Some ([], 0, [0, 6000, 12000, 18000, 24000, 30000, 36000, 42000, 48000, 54000, 60000], 60350)"
  by (simp add: slow_start_def observe_def script_defs observation_defs)

text \<open>
  The same defect at every reachable state that shows a notification: \<open>hide()\<close> sets a
  300 ms removal timer; \<open>show(message, style)\<close> called \<open>d < 300\<close> ms later replaces the
  fading element outright (the new element is alone on the page, at full opacity), but the
  timer stays pending, and when it fires its callback reads \<open>notificationEl\<close>, which is now
  the new element, and removes it: the page is empty.
\<close>

theorem show_during_fade_is_removed:
  assumes "run evs (boot h0) = Some s"
    and "notificationEl s = Some e"
    and "d < 300"
  shows "let pending = \<lparr>tid = next_timer s, due = now s + 300, period = None, cb = CbRemove\<rparr>;
             s1 = (hideNotification s)\<lparr>now := now s + d\<rparr>;
             s2 = showNotification m ty s1
         in timers s1 = timers s @ [pending]
            \<and> body s2 = [next_element s]
            \<and> displayed s2 = [\<lparr>textContent = m,
                   background = (if ty = ''info'' then ''#1e40af'' else ''#166534''), opacity = ''''\<rparr>]
            \<and> pending \<in> set (timers s2) \<and> now s2 < due pending
            \<and> (\<exists>s3. step (Fire (next_timer s)) (s2\<lparr>now := now s + 300\<rparr>) = Some s3
                  \<and> body s3 = [] \<and> notificationEl s3 = None \<and> displayed s3 = [])"
proof -
  define pending where "pending = \<lparr>tid = next_timer s, due = now s + 300, period = None, cb = CbRemove\<rparr>"
  define s1 where "s1 = (hideNotification s)\<lparr>now := now s + d\<rparr>"
  define s2 where "s2 = showNotification m ty s1"
  have ov: "overlay_ok s" using overlay_ok_run [OF overlay_ok_boot assms(1)] .
  have tm: "timers_ok s" using timers_ok_run [OF timers_ok_boot assms(1)] .
  have t1: "timers s1 = timers s @ [pending]" and n1: "next_element s1 = next_element s"
    and b1: "body s1 = body s" and e1: "notificationEl s1 = notificationEl s" and now1: "now s1 = now s + d"
    using assms(2) by (simp_all add: s1_def pending_def hideNotification_def setTimeout_def set_opacity_def)
  have ov1: "overlay_ok s1" using ov b1 e1 by (simp add: overlay_ok_def)
  have sh: "body s2 = [next_element s] \<and> notificationEl s2 = Some (next_element s)
     \<and> displayed s2 = [\<lparr>textContent = m, background = (if ty = ''info'' then ''#1e40af'' else ''#166534''), opacity = ''''\<rparr>]"
    using show_replaces [OF ov1, of m ty] n1 by (simp add: s2_def)
  have t2: "timers s2 = timers s @ [pending]" and now2: "now s2 = now s + d"
    using t1 now1 by (simp_all add: s2_def showNotification_def remove_node_def Let_def split: option.splits)
  have fresh: "\<forall>t \<in> set (timers s). tid t \<noteq> next_timer s"
    using tm by (auto simp: timers_ok_def)
  have fnd: "find (\<lambda>t. tid t = next_timer s) (timers s2) = Some pending"
    using find_fresh_timer [OF fresh, of pending] by (simp add: t2 pending_def)
  let ?s3 = "fire pending (s2\<lparr>now := now s + 300\<rparr>)"
  have st: "step (Fire (next_timer s)) (s2\<lparr>now := now s + 300\<rparr>) = Some ?s3"
    using fnd by (simp add: step_def pending_def)
  have f3: "body ?s3 = [] \<and> notificationEl ?s3 = None \<and> displayed ?s3 = []"
    using sh by (simp add: fire_def pending_def run_callback_def removeFaded_def remove_node_def displayed_def)
  show ?thesis
    using t1 sh t2 now2 assms(3) st f3
    unfolding Let_def pending_def [symmetric] s1_def [symmetric] s2_def [symmetric]
    by (simp add: pending_def)
qed

theorem show_during_fade_is_removed_witness:
  "run [Settle 1 (Resolved (Some ''starting''))] (boot False) = Some session_started
   \<and> notificationEl session_started = Some 1 \<and> (100::nat) < 300
   \<and> overlay (showNotification ''ComfyUI is ready!'' ''success''
         ((hideNotification session_started)\<lparr>now := now session_started + 100\<rparr>))
       = [(''ComfyUI is ready!'', ''#166534'', '''')]
   \<and> map_option overlay (step (Fire (next_timer session_started))
         ((showNotification ''ComfyUI is ready!'' ''success''
            ((hideNotification session_started)\<lparr>now := now session_started + 100\<rparr>))
          \<lparr>now := now session_started + 300\<rparr>)) = Some []
   \<and> (\<exists>s3. step (Fire (next_timer session_started))
         ((showNotification ''ComfyUI is ready!'' ''success''
            ((hideNotification session_started)\<lparr>now := now session_started + 100\<rparr>))
          \<lparr>now := now session_started + 300\<rparr>) = Some s3 \<and> body s3 = [])"
  using show_during_fade_is_removed [of "[Settle 1 (Resolved (Some ''starting''))]" False session_started
      1 100 "''ComfyUI is ready!''" "''success''"]
  by (simp add: session_started_def script_defs observation_defs)

text \<open>
  C6. A poll session answered "starting" \<open>n\<close> times and then anything else ("running", another
  state, no state, a failed request) ends after exactly \<open>n + 1\<close> attempts, whatever follows;
  answered "starting" only, it does not end. In the event loop each settled poll request
  is handled: on "starting" the session's request is replaced by exactly one 2 second timer
  for the next \<open>poll\<close> and nothing is sent; on any other outcome the request is dropped, no
  poll timer is set and nothing is sent, so the session is over; and a poll timer that
  fires sends exactly one poll request.
\<close>

theorem poll_session_terminates:
  "session (replicate n (Resolved (Some ''starting''))) s = None
   \<and> (r \<noteq> Resolved (Some ''starting'') \<longrightarrow>
        session (replicate n (Resolved (Some ''starting'')) @ r # rest) s
          = Some (Suc n, snd (checkState r s)))
   \<and> (find (\<lambda>q. rid q = i) (inflight s) = Some q \<and> awaiter q = AwaitCheckState \<longrightarrow>
        (\<exists>s'. step (Settle i r) s = Some s'
           \<and> sent s' = sent s
           \<and> poll_requests s' = remove1 q (poll_requests s)
           \<and> (if r = Resolved (Some ''starting'')
               then poll_timers s' = poll_timers s @
                      [\<lparr>tid = next_timer s, due = now s + 2000, period = None, cb = CbPoll\<rparr>]
                    \<and> active_sessions s' = active_sessions s
               else poll_timers s' = poll_timers s
                    \<and> Suc (active_sessions s') = active_sessions s)))
   \<and> (t \<in> set (timers s) \<and> cb t = CbPoll \<and> period t = None \<longrightarrow>
        poll_attempts (fire t s) = poll_attempts s @ [now s]
        \<and> poll_timers (fire t s) = remove1 t (poll_timers s)
        \<and> active_sessions (fire t s) = active_sessions s)"
proof (intro conjI impI)
  show "session (replicate n (Resolved (Some ''starting''))) s = None"
    by (rule session_still_starting)
next
  assume "r \<noteq> Resolved (Some ''starting'')"
  then show "session (replicate n (Resolved (Some ''starting'')) @ r # rest) s
          = Some (Suc n, snd (checkState r s))"
    by (simp add: session_after_starting session_ends del: session.simps)
next
  assume a: "find (\<lambda>q. rid q = i) (inflight s) = Some q \<and> awaiter q = AwaitCheckState"
  then have "q \<in> set (inflight s)" by (auto dest: find_in_set)
  with a have "q \<in> set (poll_requests s)" by (simp add: poll_requests_def)
  then have len: "Suc (length (remove1 q (poll_requests s))) = length (poll_requests s)"
    by (rule Suc_length_remove1)
  show "\<exists>s'. step (Settle i r) s = Some s'
           \<and> sent s' = sent s
           \<and> poll_requests s' = remove1 q (poll_requests s)
           \<and> (if r = Resolved (Some ''starting'')
               then poll_timers s' = poll_timers s @
                      [\<lparr>tid = next_timer s, due = now s + 2000, period = None, cb = CbPoll\<rparr>]
                    \<and> active_sessions s' = active_sessions s
               else poll_timers s' = poll_timers s
                    \<and> Suc (active_sessions s') = active_sessions s)"
  proof (cases "r = Resolved (Some ''starting'')")
    case True
    with poll_settled_starting [of i s q] a len show ?thesis
      by (auto simp add: active_sessions_def)
  next
    case False
    with poll_settled_done [of i s q r] a len show ?thesis
      by (auto simp add: active_sessions_def)
  qed
next
  assume "t \<in> set (timers s) \<and> cb t = CbPoll \<and> period t = None"
  then show "poll_attempts (fire t s) = poll_attempts s @ [now s]"
    "poll_timers (fire t s) = remove1 t (poll_timers s)"
    "active_sessions (fire t s) = active_sessions s"
    using poll_timer_fires [of t s] by simp_all
qed

theorem poll_session_terminates_witness:
  "map_option fst (session (replicate 3 (Resolved (Some ''starting'')) @ Rejected # [Resolved (Some ''starting'')])
       session_started) = Some 4
   \<and> session (replicate 3 (Resolved (Some ''starting''))) session_started = None
   \<and> Rejected \<noteq> Resolved (Some ''starting'')
   \<and> find (\<lambda>q. rid q = 2) (inflight session_started) = Some \<lparr>rid = 2, awaiter = AwaitCheckState, deadline = 5000\<rparr>
   \<and> awaiter \<lparr>rid = 2, awaiter = AwaitCheckState, deadline = 5000\<rparr> = AwaitCheckState
   \<and> active_sessions session_started = 1
   \<and> map_option active_sessions (step (Settle 2 Rejected) session_started) = Some 0
   \<and> map_option active_sessions (step (Settle 2 (Resolved (Some ''starting''))) session_started) = Some 1
   \<and> map_option poll_timers (step (Settle 2 (Resolved (Some ''starting''))) session_started)
        = Some [\<lparr>tid = 2, due = 2000, period = None, cb = CbPoll\<rparr>]"
  using poll_session_terminates [of 3 session_started Rejected "[Resolved (Some ''starting'')]" 2
      "\<lparr>rid = 2, awaiter = AwaitCheckState, deadline = 5000\<rparr>"]
    poll_session_terminates [of 3 session_started "Resolved (Some ''starting'')" "[]" 2
      "\<lparr>rid = 2, awaiter = AwaitCheckState, deadline = 5000\<rparr>"]
  by (simp add: session_started_def script_defs observation_defs)




text \<open>
  C9. In every state the event loop can reach, hiding the tab cancels no network call and
  no poll session: the requests in flight and the pending poll timers are the same after
  the event, only the heartbeat timer is gone (\<open>pingInterval\<close> is \<open>null\<close>, no heartbeat timer
  is left to tick). The session goes on as in a visible tab: a settled poll request, a
  fired session timer and a whole session do exactly what they do when the tab is visible,
  a poll timer firing in the hidden tab sends the next poll request, and no event other
  than showing the tab again sends a heartbeat.
\<close>

theorem hiding_keeps_session_polling:
  assumes "run evs (boot h0) = Some s"
  shows "(\<exists>s'. step (VisibilityChange True) s = Some s' \<and> hidden s'
            \<and> inflight s' = inflight s
            \<and> poll_requests s' = poll_requests s \<and> poll_timers s' = poll_timers s
            \<and> active_sessions s' = active_sessions s
            \<and> ping_timers s' = [] \<and> pingInterval s' = None)
     \<and> (awaiter q = AwaitCheckState \<longrightarrow>
           settle q r (u\<lparr>hidden := True\<rparr>) = (settle q r u)\<lparr>hidden := True\<rparr>)
     \<and> (cb t \<noteq> CbPing \<longrightarrow> fire t (u\<lparr>hidden := True\<rparr>) = (fire t u)\<lparr>hidden := True\<rparr>)
     \<and> session rs (u\<lparr>hidden := True\<rparr>) = map_option (\<lambda>(n, v). (n, v\<lparr>hidden := True\<rparr>)) (session rs u)
     \<and> (hidden u \<and> t \<in> set (timers u) \<and> cb t = CbPoll \<and> period t = None \<longrightarrow>
           poll_attempts (fire t u) = poll_attempts u @ [now u]
           \<and> active_sessions (fire t u) = active_sessions u)
     \<and> (hidden u \<and> ev \<noteq> VisibilityChange False \<and> step ev u = Some u' \<longrightarrow>
           heartbeats u' = heartbeats u \<and> hidden u')"
proof -
  have ok: "timers_ok (s\<lparr>hidden := True\<rparr>)"
    using timers_ok_hidden [OF timers_ok_run [OF timers_ok_boot assms]] .
  have "\<exists>s'. step (VisibilityChange True) s = Some s' \<and> hidden s'
            \<and> inflight s' = inflight s
            \<and> poll_requests s' = poll_requests s \<and> poll_timers s' = poll_timers s
            \<and> active_sessions s' = active_sessions s
            \<and> ping_timers s' = [] \<and> pingInterval s' = None"
    using hide_keeps_polls [OF ok] quiet_stopPinging [of "s\<lparr>hidden := True\<rparr>"]
    by (simp add: step_def on_visibilitychange_def active_sessions_def poll_requests_def)
       (simp add: poll_timers_def)
  moreover have "hidden u \<and> ev \<noteq> VisibilityChange False \<and> step ev u = Some u' \<longrightarrow>
           heartbeats u' = heartbeats u \<and> hidden u'"
    using no_heartbeat_while_hidden [of u ev u'] by blast
  moreover have "hidden u \<and> t \<in> set (timers u) \<and> cb t = CbPoll \<and> period t = None \<longrightarrow>
           poll_attempts (fire t u) = poll_attempts u @ [now u]
           \<and> active_sessions (fire t u) = active_sessions u"
    using poll_timer_fires [of t u] by blast
  ultimately show ?thesis
    by (simp add: hidden_settle_poll hidden_fire hidden_session)
qed

theorem hiding_keeps_session_polling_witness:
  "poll_timers (the (run mid_session (boot False))) = [\<lparr>tid = 2, due = 2100, period = None, cb = CbPoll\<rparr>]
   \<and> ping_timers (the (run mid_session (boot False))) = [\<lparr>tid = 1, due = 60000, period = Some 60000, cb = CbPing\<rparr>]
   \<and> map_option poll_timers (step (VisibilityChange True) (the (run mid_session (boot False))))
        = Some [\<lparr>tid = 2, due = 2100, period = None, cb = CbPoll\<rparr>]
   \<and> map_option ping_timers (step (VisibilityChange True) (the (run mid_session (boot False)))) = Some []
   \<and> hidden (the (run (mid_session @ [VisibilityChange True, Elapse 2000]) (boot False)))
   \<and> \<lparr>tid = 2, due = 2100, period = None, cb = CbPoll\<rparr>
        \<in> set (timers (the (run (mid_session @ [VisibilityChange True, Elapse 2000]) (boot False))))
   \<and> map_option poll_attempts
        (step (Fire 2) (the (run (mid_session @ [VisibilityChange True, Elapse 2000]) (boot False))))
        = Some [0, 2100]
   \<and> map_option heartbeats
        (step (Fire 2) (the (run (mid_session @ [VisibilityChange True, Elapse 2000]) (boot False))))
        = Some [0]
   \<and> map_option observe
        (run (mid_session @ [VisibilityChange True, Elapse 2000, Fire 2, Elapse 40,
                              Settle 3 (Resolved (Some ''running''))]) (boot False))
        = Some ([(''ComfyUI is ready!'', ''#166534'', '''')], 0, [0, 2100], 2140)
   \<and> map_option fst (session [Resolved (Some ''starting''), Resolved (Some ''running'')]
        ((the (run mid_session (boot False)))\<lparr>hidden := True\<rparr>)) = Some 2"
  using hiding_keeps_session_polling
      [where evs = mid_session and ?h0.0 = False and s = "the (run mid_session (boot False))"
         and u = "the (run (mid_session @ [VisibilityChange True, Elapse 2000]) (boot False))"
         and t = "\<lparr>tid = 2, due = 2100, period = None, cb = CbPoll\<rparr>"
         and ev = "Fire 2"
         and u' = "the (step (Fire 2) (the (run (mid_session @ [VisibilityChange True, Elapse 2000]) (boot False))))"
         and q = "\<lparr>rid = 2, awaiter = AwaitCheckState, deadline = 5000\<rparr>"
         and r = "Resolved (Some ''starting'')"
         and rs = "[Resolved (Some ''starting''), Resolved (Some ''running'')]"]
  by (simp add: mid_session_def observe_def script_defs observation_defs)

end
